theory Spec2Isabelle
  imports Main
begin

section \<open>lockfree::AtomicWrapper: the memory it lives in\<close>

text \<open>
  \<^verbatim>\<open>AtomicWrapper<T>\<close> owns one member, \<^verbatim>\<open>std::shared_ptr<T> objectPtr\<close>. Every
  write builds a new \<^verbatim>\<open>T\<close> with \<^verbatim>\<open>std::make_shared\<close> and swings the pointer to it;
  no object is written after it has been built. The memory is therefore a store of
  cells that only grows, an address is an index into it, and \<^verbatim>\<open>nullptr\<close> is \<open>None\<close>.
  A \<^verbatim>\<open>shared_ptr\<close> keeps its object alive, so an address held by anyone is never
  handed out a second time; reference counts and reclamation are not part of the model.

  \<^verbatim>\<open>std::make_shared\<close> throws \<^verbatim>\<open>std::bad_alloc\<close> when the allocator refuses. The
  allocator's answers to the coming requests are the list \<open>alloc_fail\<close> (\<open>True\<close>: the
  request is refused); once the list is used up every request is granted.

  The value type is any type of class \<open>default\<close>: the \<^verbatim>\<open>static_assert\<close> of line 43 asks
  for a default constructor, and \<^verbatim>\<open>T()\<close> is the constant \<open>default\<close>. Copying a \<^verbatim>\<open>T\<close> and
  default-constructing one are total and have no effect of their own.
\<close>

type_synonym ptr = "nat option"

datatype error = BadAlloc

record 'a memory =
  cells :: "'a list"
  alloc_fail :: "bool list"

definition make_shared :: "'a \<Rightarrow> 'a memory \<Rightarrow> (error + nat) \<times> 'a memory" where
  "make_shared v m =
     (case alloc_fail m of
        [] \<Rightarrow> (Inr (length (cells m)), m\<lparr>cells := cells m @ [v]\<rparr>)
      | refused # rest \<Rightarrow>
          if refused then (Inl BadAlloc, m\<lparr>alloc_fail := rest\<rparr>)
          else (Inr (length (cells m)), m\<lparr>cells := cells m @ [v], alloc_fail := rest\<rparr>))"

text \<open>The container: the memory it shares with its clients, and its one member.\<close>

record 'a world =
  mem :: "'a memory"
  objectPtr :: ptr

definition valid :: "'a world \<Rightarrow> bool" where
  "valid s = (case objectPtr s of None \<Rightarrow> True | Some a \<Rightarrow> a < length (cells (mem s)))"

subsection \<open>The atomic free functions on \<^verbatim>\<open>shared_ptr\<close>\<close>

text \<open>
  Each is one indivisible step on \<open>objectPtr\<close>; the memory orders the source passes
  (\<^verbatim>\<open>memory_order_relaxed\<close> for load, store and reset) do not appear, every step takes
  effect at once. \<^verbatim>\<open>atomic_compare_exchange_weak\<close> compares the two pointers (not the
  objects), and the weak form may fail although they are equal: \<open>fails\<close> says
  whether this call does. On failure the pointer found is written to \<^verbatim>\<open>*expected\<close>.
\<close>

definition atomic_load :: "'a world \<Rightarrow> ptr" where
  "atomic_load s = objectPtr s"

definition atomic_store :: "ptr \<Rightarrow> 'a world \<Rightarrow> 'a world" where
  "atomic_store p s = s\<lparr>objectPtr := p\<rparr>"

definition atomic_compare_exchange_weak ::
    "bool \<Rightarrow> ptr \<Rightarrow> ptr \<Rightarrow> 'a world \<Rightarrow> bool \<times> ptr \<times> 'a world" where
  "atomic_compare_exchange_weak fails expected desired s =
     (if objectPtr s = expected \<and> \<not> fails
      then (True, expected, s\<lparr>objectPtr := desired\<rparr>)
      else (False, objectPtr s, s))"

text \<open>
  \<^verbatim>\<open>currentObjectPtr == nullptr ? T() : *currentObjectPtr\<close>, the expression \<^verbatim>\<open>load\<close>,
  \<^verbatim>\<open>read\<close> and \<^verbatim>\<open>update\<close> all evaluate. One operand is a prvalue, so the result is a
  prvalue as well: a fresh \<^verbatim>\<open>T\<close>, never a reference to the shared object.
\<close>

definition copy_of :: "ptr \<Rightarrow> 'a::default world \<Rightarrow> 'a" where
  "copy_of currentObjectPtr s =
     (case currentObjectPtr of None \<Rightarrow> default | Some a \<Rightarrow> cells (mem s) ! a)"

section \<open>The member functions\<close>

text \<open>
  A member function takes the world and returns its result with the world it leaves;
  a reference parameter is passed in and returned; a function that can throw returns
  \<open>Inl\<close> of the exception in place of its result.
\<close>

definition store :: "'a \<Rightarrow> 'a world \<Rightarrow> (error + unit) \<times> 'a world" where
  "store updatedObject s =
     (case make_shared updatedObject (mem s) of
        (Inl e, m) \<Rightarrow> (Inl e, s\<lparr>mem := m\<rparr>)
      | (Inr a, m) \<Rightarrow> (Inr (), atomic_store (Some a) (s\<lparr>mem := m\<rparr>)))"

definition load :: "'a::default world \<Rightarrow> 'a \<times> 'a world" where
  "load s =
     (let currentObjectPtr = atomic_load s in
      if currentObjectPtr = None then (default, s)
      else (cells (mem s) ! the currentObjectPtr, s))"

definition load_out :: "'a \<Rightarrow> 'a world \<Rightarrow> (bool \<times> 'a) \<times> 'a world" where
  "load_out outputObject s =
     (let currentObjectPtr = atomic_load s in
      if currentObjectPtr = None then ((False, outputObject), s)
      else ((True, cells (mem s) ! the currentObjectPtr), s))"

text \<open>
  \<^verbatim>\<open>read\<close>: \<open>readFunction\<close> returns its result together with what it has made of the
  argument it was handed; that argument is the temporary of \<open>copy_of\<close>, which dies at
  the end of the full expression.
\<close>

definition read :: "('a \<Rightarrow> 'r \<times> 'a) \<Rightarrow> 'a::default world \<Rightarrow> 'r \<times> 'a world" where
  "read readFunction s =
     (let currentObjectPtr = atomic_load s;
          (result, temporary) = readFunction (copy_of currentObjectPtr s)
      in (result, s))"

subsection \<open>\<^verbatim>\<open>update\<close>: the retry loop\<close>

text \<open>
  While one call of \<^verbatim>\<open>update\<close> runs, other threads may write the slot. What they do
  between this call's last look at \<open>objectPtr\<close> and its next compare-and-swap is an
  \<open>interference\<close>: the writes that completed there (a snapshot published by a
  \<^verbatim>\<open>store\<close>, \<^verbatim>\<open>init\<close> or \<^verbatim>\<open>update\<close> of another thread, or a \<^verbatim>\<open>reset\<close>), and whether the
  compare-and-swap fails spuriously. The environment of a call lists one interference
  per attempt; after the list there is none. A publication is a write that has
  completed: its cell is in the memory, whatever the allocator will answer next. A
  call that meets interference for ever never returns; it has no environment here.

  \<open>updateFunction\<close> is a \<^verbatim>\<open>std::function\<close>: it may carry state of its own (a captured
  counter, say), which is the \<open>'c\<close> it takes and returns; on the \<^verbatim>\<open>T&\<close> it is handed it
  returns the object it leaves there.
\<close>

datatype 'a rival_write = Publish 'a | Clear

datatype 'a interference = Interference (others: "'a rival_write list") (spurious: bool)

definition quiet :: "'a interference" where
  "quiet = Interference [] False"

fun apply_write :: "'a world \<Rightarrow> 'a rival_write \<Rightarrow> 'a world" where
  "apply_write s (Publish v) =
     s\<lparr>mem := (mem s)\<lparr>cells := cells (mem s) @ [v]\<rparr>,
       objectPtr := Some (length (cells (mem s)))\<rparr>"
| "apply_write s Clear = s\<lparr>objectPtr := None\<rparr>"

datatype ('u, 'c, 'a) attempt_result =
    Retry ptr 'c "'a world"
  | Returned 'u 'c "'a world"
  | Thrown error 'c "'a world"

text \<open>One turn of the \<^verbatim>\<open>do ... while\<close>: the body (lines 92 to 94) and the condition.\<close>

definition attempt ::
    "'a interference \<Rightarrow> ('a \<Rightarrow> 'c \<Rightarrow> ('u \<times> 'a) \<times> 'c) \<Rightarrow> 'c \<Rightarrow> ptr \<Rightarrow> 'a::default world
      \<Rightarrow> ('u, 'c, 'a) attempt_result" where
  "attempt i updateFunction c currentObjectPtr s =
     (let updateObject = copy_of currentObjectPtr s;
          ((result, updateObject'), c') = updateFunction updateObject c
      in case make_shared updateObject' (mem s) of
           (Inl e, m) \<Rightarrow> Thrown e c' (s\<lparr>mem := m\<rparr>)
         | (Inr a, m) \<Rightarrow>
             (let updateObjectPtr = Some a;
                  s' = foldl apply_write (s\<lparr>mem := m\<rparr>) (others i);
                  (swapped, currentObjectPtr', s'') =
                     atomic_compare_exchange_weak (spurious i) currentObjectPtr updateObjectPtr s'
              in if swapped then Returned result c' s''
                 else Retry currentObjectPtr' c' s''))"

function update_loop ::
    "'a interference list \<Rightarrow> ('a \<Rightarrow> 'c \<Rightarrow> ('u \<times> 'a) \<times> 'c) \<Rightarrow> 'c \<Rightarrow> ptr \<Rightarrow> 'a::default world
      \<Rightarrow> (error + 'u) \<times> 'c \<times> 'a world" where
  "update_loop env updateFunction c currentObjectPtr s =
     (case attempt (case env of [] \<Rightarrow> quiet | i # _ \<Rightarrow> i) updateFunction c currentObjectPtr s of
        Thrown e c' s' \<Rightarrow> (Inl e, c', s')
      | Returned result c' s' \<Rightarrow> (Inr result, c', s')
      | Retry currentObjectPtr' c' s' \<Rightarrow> update_loop (tl env) updateFunction c' currentObjectPtr' s')"
  by pat_completeness auto

text \<open>
  The loop ends: an attempt that meets no interference fails only when
  \<open>currentObjectPtr\<close> is stale, and the failed compare-and-swap refreshes it.
\<close>

lemma attempt_quiet_Retry:
  assumes "attempt quiet updateFunction c currentObjectPtr s = Retry currentObjectPtr' c' s'"
  shows "currentObjectPtr \<noteq> objectPtr s \<and> currentObjectPtr' = objectPtr s'"
  using assms
  by (auto simp: attempt_def quiet_def make_shared_def atomic_compare_exchange_weak_def Let_def
      split: prod.splits sum.splits list.splits if_splits)

termination update_loop
proof (relation "measures [\<lambda>(env, f, c, cur, s). length env,
                           \<lambda>(env, f, c, cur, s). if cur = objectPtr s then 0 else 1]", goal_cases)
  case 1
  then show ?case by simp
next
  case (2 env f c cur s cur' c' s')
  show ?case
  proof (cases env)
    case Nil
    with 2 have "attempt quiet f c cur s = Retry cur' c' s'" by simp
    from attempt_quiet_Retry[OF this] Nil show ?thesis by simp
  next
    case (Cons i rest)
    then show ?thesis by simp
  qed
qed

text \<open>
  \<^verbatim>\<open>U update(std::function<U (T&)>)\<close>, lines 82 to 99. The interference met by the
  first attempt is what happens between the \<^verbatim>\<open>atomic_load\<close> of line 85 and the first
  compare-and-swap.
\<close>

definition update ::
    "'a interference list \<Rightarrow> ('a \<Rightarrow> 'c \<Rightarrow> ('u \<times> 'a) \<times> 'c) \<Rightarrow> 'c \<Rightarrow> 'a::default world
      \<Rightarrow> (error + 'u) \<times> 'c \<times> 'a world" where
  "update env updateFunction c s =
     (let currentObjectPtr = atomic_load s
      in update_loop env updateFunction c currentObjectPtr s)"

text \<open>
  \<^verbatim>\<open>void update(std::function<void (T&)>)\<close>, lines 101 to 113, is the same text without
  \<^verbatim>\<open>result\<close>: the loop above, run with a function whose result is \<open>()\<close>.
\<close>

definition update_void ::
    "'a interference list \<Rightarrow> ('a \<Rightarrow> 'c \<Rightarrow> 'a \<times> 'c) \<Rightarrow> 'c \<Rightarrow> 'a::default world
      \<Rightarrow> (error + unit) \<times> 'c \<times> 'a world" where
  "update_void env updateFunction c s =
     update env (\<lambda>updateObject c. case updateFunction updateObject c of
                                     (updateObject', c') \<Rightarrow> (((), updateObject'), c')) c s"

definition init :: "'a::default world \<Rightarrow> (error + unit) \<times> 'a world" where
  "init s = store default s"

definition reset :: "'a world \<Rightarrow> 'a world" where
  "reset s = atomic_store None s"

subsection \<open>Constructors and operators\<close>

text \<open>
  A constructor is given the memory and returns the world with the new container in
  it, or the exception \<^verbatim>\<open>std::make_shared\<close> threw. \<^verbatim>\<open>AtomicWrapper() = default\<close> leaves
  \<open>objectPtr\<close> at its member initialiser \<^verbatim>\<open>nullptr\<close> (line 45). The variadic constructor
  forwards its arguments to a constructor of \<^verbatim>\<open>T\<close>, here the function \<open>construct\<close>.
\<close>

definition AtomicWrapper_default :: "'a memory \<Rightarrow> 'a world" where
  "AtomicWrapper_default m = \<lparr>mem = m, objectPtr = None\<rparr>"

definition AtomicWrapper_args :: "('args \<Rightarrow> 'a) \<Rightarrow> 'args \<Rightarrow> 'a memory \<Rightarrow> error + 'a world" where
  "AtomicWrapper_args construct args m =
     (case make_shared (construct args) m of
        (Inl e, m') \<Rightarrow> Inl e
      | (Inr a, m') \<Rightarrow> Inr \<lparr>mem = m', objectPtr = Some a\<rparr>)"

definition AtomicWrapper_from :: "'a \<Rightarrow> 'a memory \<Rightarrow> error + 'a world" where
  "AtomicWrapper_from initializeObject m =
     (case make_shared initializeObject m of
        (Inl e, m') \<Rightarrow> Inl e
      | (Inr a, m') \<Rightarrow> Inr \<lparr>mem = m', objectPtr = Some a\<rparr>)"


definition convert_to :: "'a::default world \<Rightarrow> 'a \<times> 'a world" where
  "convert_to s = load s"

definition assign_nullptr :: "'a world \<Rightarrow> 'a world" where
  "assign_nullptr s = reset s"

definition eq_nullptr :: "'a world \<Rightarrow> bool \<times> 'a world" where
  "eq_nullptr s = (atomic_load s = None, s)"

definition ne_nullptr :: "'a world \<Rightarrow> bool \<times> 'a world" where
  "ne_nullptr s = (case eq_nullptr s of (r, s') \<Rightarrow> (\<not> r, s'))"

text \<open>The two states of the slot.\<close>

datatype slot_state = Empty | Holding

definition slot_state :: "'a world \<Rightarrow> slot_state" where
  "slot_state s = (case objectPtr s of None \<Rightarrow> Empty | Some a \<Rightarrow> Holding)"

section \<open>Threads calling \<^verbatim>\<open>update\<close> at the same time\<close>

text \<open>
  Several threads run the void \<^verbatim>\<open>update\<close> of lines 101 to 113 on one container, each
  with the same side-effect free \<open>updateFunction\<close>. A thread is where it stands in that
  text with its two local pointers:
  \<^item> \<open>Calling\<close>: before the \<^verbatim>\<open>atomic_load\<close> of line 103;
  \<^item> \<open>Looping cur\<close>: at the head of the loop body, \<^verbatim>\<open>currentObjectPtr\<close> being \<open>cur\<close>;
  \<^item> \<open>Swapping cur a\<close>: before the compare-and-swap of line 112, \<^verbatim>\<open>updateObjectPtr\<close>
    pointing to cell \<open>a\<close>;
  \<^item> \<open>Finished\<close>: returned; \<open>Raised e\<close>: left by the exception \<open>e\<close>.
  One step of a thread is one access to what the threads share: the load, the loop
  body (it reads a cell nobody writes any more, and allocates), the compare-and-swap.
  A schedule names, step by step, the thread that moves and whether its
  compare-and-swap, if that is its step, fails spuriously.
\<close>

datatype thread = Calling | Looping ptr | Swapping ptr nat | Finished | Raised error

fun thread_step :: "('a \<Rightarrow> 'a) \<Rightarrow> bool \<Rightarrow> thread \<Rightarrow> 'a::default world \<Rightarrow> thread \<times> 'a world" where
  "thread_step updateFunction fails Calling s = (Looping (atomic_load s), s)"
| "thread_step updateFunction fails (Looping currentObjectPtr) s =
     (let updateObject = copy_of currentObjectPtr s;
          updateObject' = updateFunction updateObject
      in case make_shared updateObject' (mem s) of
           (Inl e, m) \<Rightarrow> (Raised e, s\<lparr>mem := m\<rparr>)
         | (Inr a, m) \<Rightarrow> (Swapping currentObjectPtr a, s\<lparr>mem := m\<rparr>))"
| "thread_step updateFunction fails (Swapping currentObjectPtr a) s =
     (case atomic_compare_exchange_weak fails currentObjectPtr (Some a) s of
        (swapped, currentObjectPtr', s') \<Rightarrow>
          (if swapped then Finished else Looping currentObjectPtr', s'))"
| "thread_step updateFunction fails Finished s = (Finished, s)"
| "thread_step updateFunction fails (Raised e) s = (Raised e, s)"

record 'a system =
  shared :: "'a world"
  threads :: "thread list"

definition system_step :: "('a \<Rightarrow> 'a) \<Rightarrow> 'a::default system \<Rightarrow> nat \<times> bool \<Rightarrow> 'a system" where
  "system_step updateFunction sys turn =
     (case turn of (i, fails) \<Rightarrow>
        if i < length (threads sys)
        then (case thread_step updateFunction fails (threads sys ! i) (shared sys) of
                (t, s) \<Rightarrow> \<lparr>shared = s, threads = (threads sys)[i := t]\<rparr>)
        else sys)"

definition run :: "('a \<Rightarrow> 'a) \<Rightarrow> (nat \<times> bool) list \<Rightarrow> 'a::default system \<Rightarrow> 'a system" where
  "run updateFunction schedule sys = foldl (system_step updateFunction) sys schedule"

definition start :: "nat \<Rightarrow> 'a world \<Rightarrow> 'a system" where
  "start K s = \<lparr>shared = s, threads = replicate K Calling\<rparr>"

text \<open>A value type with a numeric field, for the concrete runs below.\<close>

datatype counter = Counter (count: int) (tag: nat)

instantiation counter :: default
begin

definition default_counter :: counter where
  "default_counter = Counter 0 0"

instance ..

end

definition increment :: "counter \<Rightarrow> counter" where
  "increment x = Counter (count x + 1) (tag x)"

text \<open>An update function with a captured call counter: it returns how often it had been
  called before, and increments the field.\<close>

definition tick :: "counter \<Rightarrow> nat \<Rightarrow> (nat \<times> counter) \<times> nat" where
  "tick x n = ((n, increment x), Suc n)"

definition tick_void :: "counter \<Rightarrow> nat \<Rightarrow> counter \<times> nat" where
  "tick_void x n = (increment x, Suc n)"

text \<open>A mutating read function: it increments the argument it was handed and returns
  the field it then finds.\<close>

definition peek :: "counter \<Rightarrow> int \<times> counter" where
  "peek x = (count (increment x), increment x)"

text \<open>An empty memory whose allocator grants everything, and one that refuses the next
  request; a container default-constructed in the first, and one holding a value.\<close>

definition m0 :: "counter memory" where
  "m0 = \<lparr>cells = [], alloc_fail = []\<rparr>"

definition w0 :: "counter world" where
  "w0 = \<lparr>mem = m0, objectPtr = None\<rparr>"

definition w1 :: "counter world" where
  "w1 = \<lparr>mem = \<lparr>cells = [Counter 7 1], alloc_fail = []\<rparr>, objectPtr = Some 0\<rparr>"

definition w1_full :: "counter world" where
  "w1_full = \<lparr>mem = \<lparr>cells = [Counter 7 1], alloc_fail = [True]\<rparr>, objectPtr = Some 0\<rparr>"

text \<open>A world that holds a value and whose allocator grants one request and refuses the
  next.\<close>

definition w1_tight :: "counter world" where
  "w1_tight = \<lparr>mem = \<lparr>cells = [Counter 7 1], alloc_fail = [False, True]\<rparr>, objectPtr = Some 0\<rparr>"

text \<open>What other threads do during two attempts of a call: a publication followed by a
  reset, then another publication.\<close>

definition rivals :: "counter interference list" where
  "rivals = [Interference [Publish (Counter 100 0), Clear] False,
             Interference [Publish (Counter 50 5)] False]"


definition solo_schedule :: "nat \<Rightarrow> (nat \<times> bool) list" where
  "solo_schedule K = concat (map (\<lambda>i. replicate 3 (i, False)) [0..<K])"

section \<open>Predicates the proofs use\<close>

text \<open>The allocator grants the next request.\<close>

definition grants :: "'a memory \<Rightarrow> bool" where
  "grants m = (case alloc_fail m of [] \<Rightarrow> True | refused # rest \<Rightarrow> \<not> refused)"

text \<open>A local pointer of a thread points into the memory.\<close>

definition ptr_ok :: "ptr \<Rightarrow> 'a world \<Rightarrow> bool" where
  "ptr_ok p s = (case p of None \<Rightarrow> True | Some a \<Rightarrow> a < length (cells (mem s)))"




declare update_loop.simps [simp del]

section \<open>Allocation\<close>

lemma make_shared_Inr:
  assumes "make_shared v m = (Inr a, m')"
  shows "a = length (cells m) \<and> cells m' = cells m @ [v]"
  using assms by (auto simp: make_shared_def split: list.splits if_splits)

lemma make_shared_Inl:
  assumes "make_shared v m = (Inl e, m')"
  shows "e = BadAlloc \<and> cells m' = cells m"
  using assms by (auto simp: make_shared_def split: list.splits if_splits)

lemma make_shared_grants:
  "fst (make_shared v m) = Inr (length (cells m)) \<longleftrightarrow> grants m"
  by (auto simp: make_shared_def grants_def split: list.splits)

lemma make_shared_refuses:
  "fst (make_shared v m) = Inl BadAlloc \<longleftrightarrow> \<not> grants m"
  by (auto simp: make_shared_def grants_def split: list.splits)

section \<open>store, load, reset\<close>

lemma store_Inr:
  assumes "store v s = (Inr u, s')"
  shows "objectPtr s' = Some (length (cells (mem s))) \<and> cells (mem s') = cells (mem s) @ [v]"
proof -
  obtain r m where ms: "make_shared v (mem s) = (r, m)" by (cases "make_shared v (mem s)")
  with assms obtain a where r: "r = Inr a" and s': "s' = atomic_store (Some a) (s\<lparr>mem := m\<rparr>)"
    by (cases r) (auto simp: store_def)
  from ms r have "make_shared v (mem s) = (Inr a, m)" by simp
  then have "a = length (cells (mem s)) \<and> cells m = cells (mem s) @ [v]"
    by (rule make_shared_Inr)
  with s' show ?thesis by (simp add: atomic_store_def)
qed

lemma store_Inl:
  assumes "store v s = (Inl e, s')"
  shows "e = BadAlloc \<and> objectPtr s' = objectPtr s \<and> cells (mem s') = cells (mem s)"
proof -
  obtain r m where ms: "make_shared v (mem s) = (r, m)" by (cases "make_shared v (mem s)")
  with assms have r: "r = Inl e" and s': "s' = s\<lparr>mem := m\<rparr>"
    by (cases r; simp add: store_def)+
  from ms r have "make_shared v (mem s) = (Inl e, m)" by simp
  then have "e = BadAlloc \<and> cells m = cells (mem s)"
    by (rule make_shared_Inl)
  with s' show ?thesis by simp
qed

lemma store_returns_iff: "fst (store v s) = Inr () \<longleftrightarrow> grants (mem s)"
  by (auto simp: store_def make_shared_def grants_def split: list.splits)

lemma load_Empty: "objectPtr s = None \<Longrightarrow> load s = (default, s)"
  by (simp add: load_def atomic_load_def)

lemma load_Holding: "objectPtr s = Some a \<Longrightarrow> load s = (cells (mem s) ! a, s)"
  by (simp add: load_def atomic_load_def)

lemma load_copy_of: "fst (load s) = copy_of (objectPtr s) s"
  by (cases "objectPtr s") (simp_all add: load_Empty load_Holding copy_of_def)

lemma slot_state_Empty: "slot_state s = Empty \<longleftrightarrow> objectPtr s = None"
  by (simp add: slot_state_def split: option.splits)

lemma slot_state_Holding: "slot_state s = Holding \<longleftrightarrow> (\<exists>a. objectPtr s = Some a)"
  by (simp add: slot_state_def split: option.splits)

text \<open>
  Claim C3 (read-after-write). For every value \<open>v\<close> and every world, whatever the slot
  holds: when the allocator grants the request, \<^verbatim>\<open>store(v)\<close> returns and a \<^verbatim>\<open>load()\<close>
  that follows directly returns \<open>v\<close>; every \<^verbatim>\<open>store(v)\<close> that returns is followed so;
  and \<^verbatim>\<open>store(v)\<close> fails to return only when the allocator refuses, with
  \<^verbatim>\<open>std::bad_alloc\<close>.
\<close>
theorem store_then_load:
  "(grants (mem s) \<longrightarrow> (\<exists>s'. store v s = (Inr (), s') \<and> fst (load s') = v))
   \<and> (\<forall>s'. store v s = (Inr (), s') \<longrightarrow> fst (load s') = v)
   \<and> (\<not> grants (mem s) \<longrightarrow> fst (store v s) = Inl BadAlloc)"
proof -
  have after: "fst (load s') = v" if "store v s = (Inr (), s')" for s'
  proof -
    from store_Inr[OF that]
    have "objectPtr s' = Some (length (cells (mem s)))" and "cells (mem s') = cells (mem s) @ [v]"
      by simp_all
    then show ?thesis by (simp add: load_Holding)
  qed
  have returns: "\<exists>s'. store v s = (Inr (), s')" if "grants (mem s)"
  proof -
    from that have "fst (store v s) = Inr ()" by (simp add: store_returns_iff)
    then show ?thesis by (cases "store v s") simp
  qed
  have refused: "fst (store v s) = Inl BadAlloc" if "\<not> grants (mem s)"
    using that by (auto simp: store_def make_shared_def grants_def split: list.splits)
  from after returns refused show ?thesis by blast
qed

theorem store_then_load_witness:
  "grants (mem w1)
   \<and> fst (load w1) = Counter 7 1
   \<and> store (Counter 5 1) w1
      = (Inr (), \<lparr>mem = \<lparr>cells = [Counter 7 1, Counter 5 1], alloc_fail = []\<rparr>, objectPtr = Some 1\<rparr>)
   \<and> fst (load \<lparr>mem = \<lparr>cells = [Counter 7 1, Counter 5 1], alloc_fail = []\<rparr>, objectPtr = Some 1\<rparr>)
      = Counter 5 1
   \<and> \<not> grants (mem w1_full)
   \<and> fst (store (Counter 5 1) w1_full) = Inl BadAlloc"
proof -
  have g: "grants (mem w1)" by (simp add: grants_def w1_def)
  have l: "fst (load w1) = Counter 7 1" by (simp add: load_Holding w1_def)
  have n: "\<not> grants (mem w1_full)" by (simp add: grants_def w1_full_def)
  have h: "store (Counter 5 1) w1
      = (Inr (), \<lparr>mem = \<lparr>cells = [Counter 7 1, Counter 5 1], alloc_fail = []\<rparr>, objectPtr = Some 1\<rparr>)"
    by (simp add: store_def make_shared_def atomic_store_def w1_def)
  from store_then_load[of w1 "Counter 5 1", THEN conjunct1, rule_format, OF g]
  obtain s' where s': "store (Counter 5 1) w1 = (Inr (), s')" and v: "fst (load s') = Counter 5 1"
    by blast
  from s' h have "s' = \<lparr>mem = \<lparr>cells = [Counter 7 1, Counter 5 1], alloc_fail = []\<rparr>, objectPtr = Some 1\<rparr>"
    by simp
  with v have a: "fst (load \<lparr>mem = \<lparr>cells = [Counter 7 1, Counter 5 1], alloc_fail = []\<rparr>,
      objectPtr = Some 1\<rparr>) = Counter 5 1"
    by simp
  note r = store_then_load[of w1_full "Counter 5 1", THEN conjunct2, THEN conjunct2, rule_format, OF n]
  show ?thesis by (intro conjI g l h a n r)
qed

text \<open>
  Claim C4 (empty-state semantics). After \<^verbatim>\<open>reset()\<close> the slot is empty. On an empty
  slot \<^verbatim>\<open>load()\<close> returns \<^verbatim>\<open>T()\<close>, and \<^verbatim>\<open>load(out)\<close> returns false and leaves \<open>out\<close> as it
  was, whatever \<open>out\<close> holds; on a slot that holds a snapshot \<^verbatim>\<open>load(out)\<close> returns true
  and \<open>out\<close> is a copy of the current value, the one \<^verbatim>\<open>load()\<close> returns.
\<close>
theorem empty_state_semantics:
  "slot_state (reset s) = Empty
   \<and> fst (load (reset s)) = default
   \<and> fst (load_out outputObject (reset s)) = (False, outputObject)
   \<and> (slot_state s = Empty \<longrightarrow>
        fst (load s) = default \<and> fst (load_out outputObject s) = (False, outputObject))
   \<and> (slot_state s = Holding \<longrightarrow>
        (\<exists>a. objectPtr s = Some a \<and> fst (load_out outputObject s) = (True, cells (mem s) ! a))
        \<and> fst (load_out outputObject s) = (True, fst (load s)))"
  by (auto simp: slot_state_def reset_def atomic_store_def load_def load_out_def atomic_load_def
      split: option.splits)

theorem empty_state_semantics_witness:
  "slot_state (reset w1) = Empty
   \<and> fst (load (reset w1)) = Counter 0 0
   \<and> fst (load_out (Counter 3 3) (reset w1)) = (False, Counter 3 3)
   \<and> slot_state w0 = Empty
   \<and> fst (load w0) = Counter 0 0 \<and> fst (load_out (Counter 3 3) w0) = (False, Counter 3 3)
   \<and> slot_state w1 = Holding
   \<and> fst (load_out (Counter 3 3) w1) = (True, Counter 7 1)"
proof -
  have e: "slot_state w0 = Empty" by (simp add: slot_state_def w0_def)
  have h: "slot_state w1 = Holding" by (simp add: slot_state_def w1_def)
  have l: "fst (load w1) = Counter 7 1" by (simp add: load_Holding w1_def)
  from e h l empty_state_semantics[of w1 "Counter 3 3"] empty_state_semantics[of w0 "Counter 3 3"]
  show ?thesis by (simp add: default_counter_def)
qed

text \<open>
  Claim C6 (immutability under read). For every \<open>readFunction\<close>, \<^verbatim>\<open>read\<close> returns what
  \<open>readFunction\<close> returns on the current value (on \<^verbatim>\<open>T()\<close> when the slot is empty), and
  leaves the world as it was, whatever \<open>readFunction\<close> does to its argument: a \<^verbatim>\<open>load()\<close>
  after the call returns what a \<^verbatim>\<open>load()\<close> before it returns.
\<close>
theorem read_leaves_slot:
  "fst (read readFunction s) = fst (readFunction (fst (load s)))
   \<and> snd (read readFunction s) = s
   \<and> load (snd (read readFunction s)) = load s"
  by (simp add: read_def load_copy_of atomic_load_def Let_def split: prod.splits)

theorem read_leaves_slot_witness:
  "fst (read peek w1) = 8 \<and> snd (read peek w1) = w1 \<and> fst (load (snd (read peek w1))) = Counter 7 1"
  using read_leaves_slot[of peek w1]
  by (simp add: peek_def increment_def load_Holding w1_def)



text \<open>
  Claim C9. A default-constructed container is empty: it compares equal to \<^verbatim>\<open>nullptr\<close>,
  \<^verbatim>\<open>load()\<close> returns \<^verbatim>\<open>T()\<close>, and \<^verbatim>\<open>load(out)\<close> returns false and leaves \<open>out\<close> as it was.
\<close>
theorem default_constructed_is_empty:
  "fst (eq_nullptr (AtomicWrapper_default m))
   \<and> \<not> fst (ne_nullptr (AtomicWrapper_default m))
   \<and> fst (load (AtomicWrapper_default m)) = default
   \<and> fst (load_out outputObject (AtomicWrapper_default m)) = (False, outputObject)"
  by (simp add: AtomicWrapper_default_def eq_nullptr_def ne_nullptr_def load_def load_out_def
      atomic_load_def)

theorem default_constructed_is_empty_witness:
  "fst (eq_nullptr (AtomicWrapper_default m0))
   \<and> fst (load (AtomicWrapper_default m0)) = Counter 0 0
   \<and> fst (load_out (Counter 3 3) (AtomicWrapper_default m0)) = (False, Counter 3 3)"
  using default_constructed_is_empty[of m0 "Counter 3 3"]
  by (simp add: default_counter_def)



section \<open>The retry loop\<close>

lemma apply_write_cells:
  "\<exists>ys. cells (mem (apply_write s w)) = cells (mem s) @ ys"
  by (cases w) simp_all

lemma foldl_apply_write_cells:
  "\<exists>ys. cells (mem (foldl apply_write s ws)) = cells (mem s) @ ys"
proof (induction ws arbitrary: s)
  case Nil
  then show ?case by simp
next
  case (Cons w ws)
  obtain ys where 1: "cells (mem (apply_write s w)) = cells (mem s) @ ys"
    using apply_write_cells by blast
  obtain zs where 2: "cells (mem (foldl apply_write (apply_write s w) ws))
      = cells (mem (apply_write s w)) @ zs"
    using Cons.IH by blast
  from 1 2 show ?case by simp
qed

text \<open>What an attempt that ends the loop has done: the compare-and-swap found
  \<open>currentObjectPtr\<close> in the slot and put there the cell just allocated, which holds
  what one call of \<open>updateFunction\<close> made of the copy; cells allocated before are as
  they were.\<close>

lemma attempt_Returned:
  assumes "attempt i f c cur s = Returned r c' s'"
  shows "f (copy_of cur s) c = ((r, cells (mem s') ! length (cells (mem s))), c')
     \<and> objectPtr s' = Some (length (cells (mem s)))
     \<and> (\<exists>ys. cells (mem s') = cells (mem s) @ ys \<and> ys \<noteq> [])
     \<and> \<not> spurious i
     \<and> (others i = [] \<longrightarrow> cur = objectPtr s \<and> length (cells (mem s')) = Suc (length (cells (mem s))))"
proof -
  obtain r0 v c0 where f: "f (copy_of cur s) c = ((r0, v), c0)"
    by (metis surj_pair)
  obtain res m where ms: "make_shared v (mem s) = (res, m)"
    by (cases "make_shared v (mem s)")
  from assms f ms obtain a where res: "res = Inr a"
    by (cases res) (auto simp: attempt_def)
  from ms res make_shared_Inr[of v "mem s" a m]
  have a: "a = length (cells (mem s))" and m: "cells m = cells (mem s) @ [v]"
    by simp_all
  define s1 where "s1 = foldl apply_write (s\<lparr>mem := m\<rparr>) (others i)"
  obtain ys where ys: "cells (mem s1) = cells m @ ys"
    unfolding s1_def using foldl_apply_write_cells[of "s\<lparr>mem := m\<rparr>"] by auto
  from assms f ms res have cas: "objectPtr s1 = cur" "\<not> spurious i"
    and out: "r = r0" "c' = c0" "s' = s1\<lparr>objectPtr := Some a\<rparr>"
    by (auto simp: attempt_def Let_def s1_def atomic_compare_exchange_weak_def split: if_splits)
  have "others i = [] \<Longrightarrow> s1 = s\<lparr>mem := m\<rparr>" by (simp add: s1_def)
  with f a m ys cas out show ?thesis by auto
qed

lemma attempt_Thrown:
  assumes "attempt i f c cur s = Thrown e c' s'"
  shows "e = BadAlloc \<and> objectPtr s' = objectPtr s \<and> cells (mem s') = cells (mem s)"
proof -
  obtain r0 v c0 where f: "f (copy_of cur s) c = ((r0, v), c0)"
    by (metis surj_pair)
  obtain res m where ms: "make_shared v (mem s) = (res, m)"
    by (cases "make_shared v (mem s)")
  from assms f ms have res: "res = Inl e" and s': "s' = s\<lparr>mem := m\<rparr>"
    by (cases res; auto simp: attempt_def Let_def atomic_compare_exchange_weak_def split: if_splits)+
  from ms res make_shared_Inl[of v "mem s" e m] s' show ?thesis by simp
qed

lemma attempt_Retry:
  assumes "attempt i f c cur s = Retry cur' c' s'" and "others i = []"
  shows "objectPtr s' = objectPtr s \<and> cur' = objectPtr s
     \<and> (\<exists>ys. cells (mem s') = cells (mem s) @ ys)"
proof -
  obtain r0 v c0 where f: "f (copy_of cur s) c = ((r0, v), c0)"
    by (metis surj_pair)
  obtain res m where ms: "make_shared v (mem s) = (res, m)"
    by (cases "make_shared v (mem s)")
  from assms f ms obtain a where res: "res = Inr a"
    by (cases res) (auto simp: attempt_def)
  from ms res make_shared_Inr[of v "mem s" a m]
  have m: "cells m = cells (mem s) @ [v]"
    by simp
  from assms f ms res have "s' = s\<lparr>mem := m\<rparr>" "cur' = objectPtr s"
    by (auto simp: attempt_def Let_def atomic_compare_exchange_weak_def split: if_splits)
  with m show ?thesis by simp
qed

lemma update_loop_Inr:
  assumes "update_loop env f c cur s = (Inr r, c', s')"
  shows "\<exists>a. objectPtr s' = Some a \<and> a < length (cells (mem s'))"
  using assms
proof (induction env f c cur s rule: update_loop.induct)
  case (1 env f c cur s)
  let ?i = "case env of [] \<Rightarrow> quiet | i # _ \<Rightarrow> i"
  show ?case
  proof (cases "attempt ?i f c cur s")
    case (Retry cur1 c1 s1)
    with "1.prems" have "update_loop (tl env) f c1 cur1 s1 = (Inr r, c', s')"
      by (subst (asm) update_loop.simps) simp
    with "1.IH"[OF Retry] show ?thesis by simp
  next
    case (Returned r1 c1 s1)
    with "1.prems" have "s' = s1"
      by (subst (asm) update_loop.simps) simp
    with attempt_Returned[OF Returned] show ?thesis by auto
  next
    case (Thrown e c1 s1)
    with "1.prems" show ?thesis
      by (subst (asm) update_loop.simps) simp
  qed
qed

lemma update_loop_Inl:
  assumes "update_loop env f c cur s = (Inl e, c', s')" and "\<forall>i\<in>set env. others i = []"
  shows "e = BadAlloc \<and> objectPtr s' = objectPtr s \<and> (\<exists>ys. cells (mem s') = cells (mem s) @ ys)"
  using assms
proof (induction env f c cur s rule: update_loop.induct)
  case (1 env f c cur s)
  let ?i = "case env of [] \<Rightarrow> quiet | i # _ \<Rightarrow> i"
  have i: "others ?i = []"
    using "1.prems"(2) by (cases env) (simp_all add: quiet_def)
  have tl: "\<forall>i\<in>set (tl env). others i = []"
    using "1.prems"(2) by (cases env) simp_all
  show ?case
  proof (cases "attempt ?i f c cur s")
    case (Retry cur1 c1 s1)
    with "1.prems"(1) have "update_loop (tl env) f c1 cur1 s1 = (Inl e, c', s')"
      by (subst (asm) update_loop.simps) simp
    from "1.IH"[OF Retry this tl] attempt_Retry[OF Retry i] show ?thesis by auto
  next
    case (Returned r1 c1 s1)
    with "1.prems"(1) show ?thesis
      by (subst (asm) update_loop.simps) simp
  next
    case (Thrown e1 c1 s1)
    with "1.prems"(1) have "e = e1" "s' = s1"
      by (subst (asm) update_loop.simps, simp)+
    with attempt_Thrown[OF Thrown] show ?thesis by simp
  qed
qed

lemma copy_of_append:
  assumes "ptr_ok p s" and "cells (mem s') = cells (mem s) @ ys"
  shows "copy_of p s' = copy_of p s"
  using assms by (cases p) (simp_all add: copy_of_def ptr_ok_def nth_append)

lemma valid_ptr_ok: "valid s \<longleftrightarrow> ptr_ok (objectPtr s) s"
  by (simp add: valid_def ptr_ok_def)

lemma update_quiet:
  "update [] f c s =
     (case f (fst (load s)) c of
        ((r, v), c') \<Rightarrow>
          (case make_shared v (mem s) of
             (Inl e, m) \<Rightarrow> (Inl e, c', s\<lparr>mem := m\<rparr>)
           | (Inr a, m) \<Rightarrow> (Inr r, c', s\<lparr>mem := m, objectPtr := Some a\<rparr>)))"
  unfolding update_def Let_def
  by (subst update_loop.simps)
     (simp add: attempt_def quiet_def atomic_load_def atomic_compare_exchange_weak_def
        load_copy_of split: prod.splits sum.splits)

lemma update_quiet_Inr:
  assumes "update [] f c s = (Inr r, c', s')"
  shows "\<exists>v. f (fst (load s)) c = ((r, v), c')
     \<and> objectPtr s' = Some (length (cells (mem s)))
     \<and> cells (mem s') = cells (mem s) @ [v]
     \<and> fst (load s') = v"
proof -
  obtain r0 v c0 where f: "f (fst (load s)) c = ((r0, v), c0)"
    by (metis surj_pair)
  obtain res m where ms: "make_shared v (mem s) = (res, m)"
    by (cases "make_shared v (mem s)")
  from assms f ms obtain a where res: "res = Inr a"
    by (cases res) (auto simp: update_quiet)
  from assms f ms res have out: "r = r0" "c' = c0" "s' = s\<lparr>mem := m, objectPtr := Some a\<rparr>"
    by (simp_all add: update_quiet)
  from ms res make_shared_Inr[of v "mem s" a m]
  have "a = length (cells (mem s))" "cells m = cells (mem s) @ [v]" by simp_all
  with f out show ?thesis by (simp add: load_Holding)
qed

lemma update_quiet_grants:
  assumes "grants (mem s)"
  shows "\<exists>r c' s'. update [] f c s = (Inr r, c', s')"
proof -
  obtain r0 v c0 where f: "f (fst (load s)) c = ((r0, v), c0)"
    by (metis surj_pair)
  from assms have "fst (make_shared v (mem s)) = Inr (length (cells (mem s)))"
    by (simp add: make_shared_grants)
  then obtain m where "make_shared v (mem s) = (Inr (length (cells (mem s))), m)"
    by (cases "make_shared v (mem s)") simp
  with f show ?thesis by (simp add: update_quiet)
qed

lemma update_quiet_refuses:
  assumes "\<not> grants (mem s)"
  shows "fst (update [] f c s) = Inl BadAlloc"
proof -
  obtain r0 v c0 where f: "f (fst (load s)) c = ((r0, v), c0)"
    by (metis surj_pair)
  from assms have "fst (make_shared v (mem s)) = Inl BadAlloc"
    by (simp add: make_shared_refuses)
  then obtain m where "make_shared v (mem s) = (Inl BadAlloc, m)"
    by (cases "make_shared v (mem s)") simp
  with f show ?thesis by (simp add: update_quiet)
qed

text \<open>The environment that lists quiet interferences is the empty one.\<close>

lemma update_quiet_env:
  assumes "\<forall>i\<in>set env. i = quiet"
  shows "update env f c s = update [] f c s"
proof (cases env)
  case Nil
  then show ?thesis by simp
next
  case (Cons i rest)
  with assms have i: "i = quiet" by simp
  have 1: "update_loop (quiet # rest) f c (objectPtr s) s =
      (case attempt quiet f c (objectPtr s) s of
         Thrown e c' s' \<Rightarrow> (Inl e, c', s')
       | Returned result c' s' \<Rightarrow> (Inr result, c', s')
       | Retry cur' c' s' \<Rightarrow> update_loop (tl (quiet # rest)) f c' cur' s')"
    by (subst update_loop.simps) simp
  have 2: "update_loop [] f c (objectPtr s) s =
      (case attempt quiet f c (objectPtr s) s of
         Thrown e c' s' \<Rightarrow> (Inl e, c', s')
       | Returned result c' s' \<Rightarrow> (Inr result, c', s')
       | Retry cur' c' s' \<Rightarrow> update_loop (tl []) f c' cur' s')"
    by (subst update_loop.simps) simp
  have "update_loop (quiet # rest) f c (objectPtr s) s = update_loop [] f c (objectPtr s) s"
  proof (cases "attempt quiet f c (objectPtr s) s")
    case (Retry cur' c' s')
    from attempt_quiet_Retry[OF this] show ?thesis by simp
  next
    case (Returned r c' s')
    with 1 2 show ?thesis by simp
  next
    case (Thrown e c' s')
    with 1 2 show ?thesis by simp
  qed
  with Cons i show ?thesis by (simp add: update_def atomic_load_def)
qed

text \<open>
  Claim C1. A call of \<^verbatim>\<open>update\<close> that experiences no concurrent modification (no other
  thread writes the slot while it runs, so its compare-and-swap finds the pointer it
  loaded) and returns has called \<open>updateFunction\<close> exactly once, on a copy of the value
  \<^verbatim>\<open>load()\<close> returned before the call (\<^verbatim>\<open>T()\<close> for an empty slot): the result it
  returns, the captured state it leaves and the object it installs are those of that
  one call. The object is installed in a new cell, the cells that were there are as
  they were, and a \<^verbatim>\<open>load()\<close> after the call returns it. The void form does the same
  without a result. Such a call returns whenever the allocator grants its request.
  This holds for every function, captured state and world.
\<close>
theorem update_alone:
  "(\<forall>r c' s'. update [] f c s = (Inr r, c', s') \<longrightarrow>
      (\<exists>v. f (fst (load s)) c = ((r, v), c')
         \<and> objectPtr s' = Some (length (cells (mem s)))
         \<and> cells (mem s') = cells (mem s) @ [v]
         \<and> fst (load s') = v))
   \<and> (\<forall>c' s'. update_void [] g c s = (Inr (), c', s') \<longrightarrow>
      (\<exists>v. g (fst (load s)) c = (v, c')
         \<and> objectPtr s' = Some (length (cells (mem s)))
         \<and> cells (mem s') = cells (mem s) @ [v]
         \<and> fst (load s') = v))
   \<and> (grants (mem s) \<longrightarrow>
        (\<exists>r c' s'. update [] f c s = (Inr r, c', s'))
      \<and> (\<exists>c' s'. update_void [] g c s = (Inr (), c', s')))"
proof (intro conjI allI impI)
  fix r c' s'
  assume "update [] f c s = (Inr r, c', s')"
  then show "\<exists>v. f (fst (load s)) c = ((r, v), c')
         \<and> objectPtr s' = Some (length (cells (mem s)))
         \<and> cells (mem s') = cells (mem s) @ [v]
         \<and> fst (load s') = v"
    by (rule update_quiet_Inr)
next
  fix c' s'
  let ?f = "\<lambda>x c. case g x c of (x', c') \<Rightarrow> (((), x'), c')"
  assume "update_void [] g c s = (Inr (), c', s')"
  then have "update [] ?f c s = (Inr (), c', s')"
    by (simp add: update_void_def)
  from update_quiet_Inr[OF this]
  show "\<exists>v. g (fst (load s)) c = (v, c')
         \<and> objectPtr s' = Some (length (cells (mem s)))
         \<and> cells (mem s') = cells (mem s) @ [v]
         \<and> fst (load s') = v"
    by (auto split: prod.splits)
next
  assume "grants (mem s)"
  then show "\<exists>r c' s'. update [] f c s = (Inr r, c', s')"
    by (rule update_quiet_grants)
next
  assume "grants (mem s)"
  from update_quiet_grants[OF this]
  show "\<exists>c' s'. update_void [] g c s = (Inr (), c', s')"
    unfolding update_void_def by (metis old.unit.exhaust)
qed


theorem update_alone_witness:
  "update [] tick 0 w1
      = (Inr 0, 1, \<lparr>mem = \<lparr>cells = [Counter 7 1, Counter 8 1], alloc_fail = []\<rparr>, objectPtr = Some 1\<rparr>)
   \<and> update_void [] tick_void 0 w0
      = (Inr (), 1, \<lparr>mem = \<lparr>cells = [Counter 1 0], alloc_fail = []\<rparr>, objectPtr = Some 0\<rparr>)
   \<and> tick (fst (load w1)) 0 = ((0, Counter 8 1), 1)
   \<and> tick_void (fst (load w0)) 0 = (Counter 1 0, 1)
   \<and> fst (load \<lparr>mem = \<lparr>cells = [Counter 7 1, Counter 8 1], alloc_fail = []\<rparr>, objectPtr = Some 1\<rparr>)
      = Counter 8 1
   \<and> fst (load \<lparr>mem = \<lparr>cells = [Counter 1 0], alloc_fail = []\<rparr>, objectPtr = Some 0\<rparr>) = Counter 1 0"
proof -
  have a: "update [] tick 0 w1
      = (Inr 0, 1, \<lparr>mem = \<lparr>cells = [Counter 7 1, Counter 8 1], alloc_fail = []\<rparr>, objectPtr = Some 1\<rparr>)"
    by code_simp
  have b: "update_void [] tick_void 0 w0
      = (Inr (), 1, \<lparr>mem = \<lparr>cells = [Counter 1 0], alloc_fail = []\<rparr>, objectPtr = Some 0\<rparr>)"
    by code_simp
  have g: "grants (mem w1)" "grants (mem w0)"
    by (simp_all add: grants_def w1_def w0_def m0_def)
  from a g update_alone[of tick 0 w1 tick_void]
  have 1: "tick (fst (load w1)) 0 = ((0, Counter 8 1), 1)
      \<and> fst (load \<lparr>mem = \<lparr>cells = [Counter 7 1, Counter 8 1], alloc_fail = []\<rparr>, objectPtr = Some 1\<rparr>)
        = Counter 8 1"
    by (auto simp: w1_def)
  from b g update_alone[of tick 0 w0 tick_void]
  have 2: "tick_void (fst (load w0)) 0 = (Counter 1 0, 1)
      \<and> fst (load \<lparr>mem = \<lparr>cells = [Counter 1 0], alloc_fail = []\<rparr>, objectPtr = Some 0\<rparr>) = Counter 1 0"
    by (auto simp: w0_def m0_def)
  from a b 1 2 show ?thesis by simp
qed

section \<open>The two states of the slot\<close>

lemma update_Inr:
  assumes "update env f c s = (Inr r, c', s')"
  shows "slot_state s' = Holding \<and> valid s'"
proof -
  from assms have "update_loop env f c (atomic_load s) s = (Inr r, c', s')"
    by (simp add: update_def)
  from update_loop_Inr[OF this] show ?thesis
    by (auto simp: slot_state_Holding valid_def)
qed

text \<open>
  Claim C5. The slot is in one of two states, empty or holding a snapshot. When
  \<^verbatim>\<open>store\<close>, \<^verbatim>\<open>init\<close> or \<^verbatim>\<open>update\<close> (either form, whatever other threads do meanwhile)
  returns, the slot holds a snapshot, and its pointer is not null and points to a cell
  of the memory; after \<^verbatim>\<open>reset\<close> it is empty; \<^verbatim>\<open>load\<close>, \<^verbatim>\<open>load(out)\<close> and \<^verbatim>\<open>read\<close> leave
  the world as it was.
\<close>
theorem slot_transitions:
  "(slot_state s = Empty \<or> slot_state s = Holding)
   \<and> (\<forall>s'. store v s = (Inr (), s') \<longrightarrow> slot_state s' = Holding \<and> valid s')
   \<and> (\<forall>s'. init s = (Inr (), s') \<longrightarrow> slot_state s' = Holding \<and> valid s')
   \<and> (\<forall>r c' s'. update env f c s = (Inr r, c', s') \<longrightarrow> slot_state s' = Holding \<and> valid s')
   \<and> (\<forall>c' s'. update_void env g c s = (Inr (), c', s') \<longrightarrow> slot_state s' = Holding \<and> valid s')
   \<and> slot_state (reset s) = Empty \<and> valid (reset s)
   \<and> snd (load s) = s \<and> snd (load_out outputObject s) = s \<and> snd (read readFunction s) = s"
proof -
  have two: "slot_state s = Empty \<or> slot_state s = Holding"
    by (cases "slot_state s") simp_all
  have st: "slot_state s' = Holding \<and> valid s'" if "store x s = (Inr (), s')" for x s'
    using store_Inr[OF that] by (simp add: slot_state_Holding valid_def)
  have up: "\<forall>r c' s'. update env f c s = (Inr r, c', s') \<longrightarrow> slot_state s' = Holding \<and> valid s'"
    by (intro allI impI) (rule update_Inr)
  have upv: "\<forall>c' s'. update_void env g c s = (Inr (), c', s') \<longrightarrow> slot_state s' = Holding \<and> valid s'"
    unfolding update_void_def by (intro allI impI) (rule update_Inr)
  have rs: "slot_state (reset s) = Empty \<and> valid (reset s)"
    by (simp add: reset_def atomic_store_def slot_state_def valid_def)
  have fr: "snd (load s) = s \<and> snd (load_out outputObject s) = s \<and> snd (read readFunction s) = s"
    by (simp add: load_def load_out_def read_def Let_def split: prod.splits)
  from two st up upv rs fr show ?thesis
    by (simp add: init_def)
qed

theorem slot_transitions_witness:
  "store (Counter 5 1) w1
     = (Inr (), \<lparr>mem = \<lparr>cells = [Counter 7 1, Counter 5 1], alloc_fail = []\<rparr>, objectPtr = Some 1\<rparr>)
   \<and> slot_state \<lparr>mem = \<lparr>cells = [Counter 7 1, Counter 5 1], alloc_fail = []\<rparr>, objectPtr = Some 1\<rparr>
     = Holding
   \<and> init w0 = (Inr (), \<lparr>mem = \<lparr>cells = [Counter 0 0], alloc_fail = []\<rparr>, objectPtr = Some 0\<rparr>)
   \<and> slot_state \<lparr>mem = \<lparr>cells = [Counter 0 0], alloc_fail = []\<rparr>, objectPtr = Some 0\<rparr> = Holding
   \<and> update rivals tick 0 w1
     = (Inr 2, 3, \<lparr>mem = \<lparr>cells = [Counter 7 1, Counter 8 1, Counter 100 0, Counter 1 0,
                                        Counter 50 5, Counter 51 5], alloc_fail = []\<rparr>,
                    objectPtr = Some 5\<rparr>)
   \<and> slot_state \<lparr>mem = \<lparr>cells = [Counter 7 1, Counter 8 1, Counter 100 0, Counter 1 0,
                                   Counter 50 5, Counter 51 5], alloc_fail = []\<rparr>,
                  objectPtr = Some 5\<rparr> = Holding
   \<and> update_void [] tick_void 0 w0
     = (Inr (), 1, \<lparr>mem = \<lparr>cells = [Counter 1 0], alloc_fail = []\<rparr>, objectPtr = Some 0\<rparr>)
   \<and> slot_state \<lparr>mem = \<lparr>cells = [Counter 1 0], alloc_fail = []\<rparr>, objectPtr = Some 0\<rparr> = Holding
   \<and> slot_state (reset w1) = Empty
   \<and> snd (load w1) = w1 \<and> snd (load_out (Counter 3 3) w1) = w1 \<and> snd (read peek w1) = w1"
proof -
  note T1 = slot_transitions[where s = w1 and v = "Counter 5 1" and env = rivals and f = tick
      and c = 0 and g = tick_void and outputObject = "Counter 3 3" and readFunction = peek]
  note T0 = slot_transitions[where s = w0 and v = "Counter 5 1" and env = "[]" and f = tick
      and c = 0 and g = tick_void and outputObject = "Counter 3 3" and readFunction = peek]
  have a: "store (Counter 5 1) w1
     = (Inr (), \<lparr>mem = \<lparr>cells = [Counter 7 1, Counter 5 1], alloc_fail = []\<rparr>, objectPtr = Some 1\<rparr>)"
    by code_simp
  have b: "init w0 = (Inr (), \<lparr>mem = \<lparr>cells = [Counter 0 0], alloc_fail = []\<rparr>, objectPtr = Some 0\<rparr>)"
    by code_simp
  have c: "update rivals tick 0 w1
     = (Inr 2, 3, \<lparr>mem = \<lparr>cells = [Counter 7 1, Counter 8 1, Counter 100 0, Counter 1 0,
                                        Counter 50 5, Counter 51 5], alloc_fail = []\<rparr>,
                    objectPtr = Some 5\<rparr>)"
    by code_simp
  have d: "update_void [] tick_void 0 w0
     = (Inr (), 1, \<lparr>mem = \<lparr>cells = [Counter 1 0], alloc_fail = []\<rparr>, objectPtr = Some 0\<rparr>)"
    by code_simp
  note a' = T1[THEN conjunct2, THEN conjunct1, rule_format, OF a, THEN conjunct1]
  note b' = T0[THEN conjunct2, THEN conjunct2, THEN conjunct1, rule_format, OF b, THEN conjunct1]
  note c' = T1[THEN conjunct2, THEN conjunct2, THEN conjunct2, THEN conjunct1, rule_format, OF c,
      THEN conjunct1]
  note d' = T0[THEN conjunct2, THEN conjunct2, THEN conjunct2, THEN conjunct2, THEN conjunct1,
      rule_format, OF d, THEN conjunct1]
  note rest = T1[THEN conjunct2, THEN conjunct2, THEN conjunct2, THEN conjunct2, THEN conjunct2]
  note e' = rest[THEN conjunct1]
  note f' = rest[THEN conjunct2, THEN conjunct2, THEN conjunct1]
  note g' = rest[THEN conjunct2, THEN conjunct2, THEN conjunct2, THEN conjunct1]
  note h' = rest[THEN conjunct2, THEN conjunct2, THEN conjunct2, THEN conjunct2]
  show ?thesis by (intro conjI a a' b b' c c' d d' e' f' g' h')
qed

section \<open>No lost updates\<close>




lemma ptr_ok_append:
  assumes "ptr_ok p s" and "cells (mem s') = cells (mem s) @ ys"
  shows "ptr_ok p s'"
  using assms by (cases p) (simp_all add: ptr_ok_def)





















lemma run_append: "run f (a @ b) sys = run f b (run f a sys)"
  by (simp add: run_def)

lemma solo_thread:
  assumes "i < length ts" and "ts ! i = Calling" and "alloc_fail (mem s) = []"
  shows "\<exists>s'. run f (replicate 3 (i, False)) \<lparr>shared = s, threads = ts\<rparr>
            = \<lparr>shared = s', threads = ts[i := Finished]\<rparr> \<and> alloc_fail (mem s') = []"
  using assms
  by (simp add: run_def numeral_3_eq_3 system_step_def atomic_load_def make_shared_def
      atomic_compare_exchange_weak_def)

lemma solo_prefix:
  assumes "alloc_fail (mem s0) = []" and "j \<le> K"
  shows "\<exists>s'. run f (solo_schedule j) (start K s0)
            = \<lparr>shared = s', threads = replicate j Finished @ replicate (K - j) Calling\<rparr>
          \<and> alloc_fail (mem s') = []"
  using assms(2)
proof (induction j)
  case 0
  with assms(1) show ?case by (simp add: solo_schedule_def run_def start_def)
next
  case (Suc j)
  then obtain s1 where 1: "run f (solo_schedule j) (start K s0)
            = \<lparr>shared = s1, threads = replicate j Finished @ replicate (K - j) Calling\<rparr>"
    and a1: "alloc_fail (mem s1) = []"
    by auto
  let ?ts = "replicate j Finished @ replicate (K - j) Calling"
  from Suc.prems have "j < length ?ts" and "?ts ! j = Calling"
    by (simp_all add: nth_append)
  from solo_thread[OF this a1]
  obtain s2 where 2: "run f (replicate 3 (j, False)) \<lparr>shared = s1, threads = ?ts\<rparr>
            = \<lparr>shared = s2, threads = ?ts[j := Finished]\<rparr>" and a2: "alloc_fail (mem s2) = []"
    by blast
  from Suc.prems have "K - j = Suc (K - Suc j)" by simp
  then have "?ts[j := Finished] = replicate (Suc j) Finished @ replicate (K - Suc j) Calling"
    by (simp add: list_update_append replicate_append_same)
  moreover have "solo_schedule (Suc j) = solo_schedule j @ replicate 3 (j, False)"
    by (simp add: solo_schedule_def)
  ultimately show ?case using 1 2 a2 by (simp add: run_append)
qed

lemma all_can_finish:
  assumes "alloc_fail (mem s0) = []"
  shows "\<forall>t \<in> set (threads (run f (solo_schedule K) (start K s0))). t = Finished"
  using solo_prefix[OF assms, of K K f] by auto

section \<open>Valid worlds\<close>

lemma valid_constructed:
  "valid (AtomicWrapper_default m)"
  "AtomicWrapper_from v m = Inr w \<Longrightarrow> valid w"
  "AtomicWrapper_args construct args m = Inr w \<Longrightarrow> valid w"
  by (auto simp: valid_def AtomicWrapper_default_def AtomicWrapper_from_def AtomicWrapper_args_def
      make_shared_def split: list.splits if_splits)

lemma valid_store: "valid s \<Longrightarrow> valid (snd (store v s))"
  by (auto simp: valid_def store_def make_shared_def atomic_store_def split: list.splits option.splits)

lemma valid_same:
  assumes "objectPtr s' = objectPtr s" and "cells (mem s') = cells (mem s) @ ys" and "valid s"
  shows "valid s' \<and> fst (load s') = fst (load s)"
proof -
  from assms(3) have p: "ptr_ok (objectPtr s) s" by (simp add: valid_ptr_ok)
  from ptr_ok_append[OF p assms(2)] copy_of_append[OF p assms(2)] assms(1)
  show ?thesis by (simp add: valid_ptr_ok load_copy_of)
qed

section \<open>Failed allocation\<close>

lemma update_quiet_Inl:
  assumes "update [] f c s = (Inl e, c', s')"
  shows "e = BadAlloc \<and> objectPtr s' = objectPtr s \<and> cells (mem s') = cells (mem s)
     \<and> fst (load s') = fst (load s)"
proof -
  obtain r0 v c0 where f: "f (fst (load s)) c = ((r0, v), c0)"
    by (metis surj_pair)
  obtain res m where ms: "make_shared v (mem s) = (res, m)"
    by (cases "make_shared v (mem s)")
  from assms f ms have res: "res = Inl e" and s': "s' = s\<lparr>mem := m\<rparr>"
    by (cases res; simp add: update_quiet)+
  from ms res make_shared_Inl[of v "mem s" e m] have "e = BadAlloc" "cells m = cells (mem s)"
    by simp_all
  with s' show ?thesis by (simp add: load_copy_of copy_of_def split: option.splits)
qed

lemma update_unrivalled_Inl:
  assumes "update env f c s = (Inl e, c', s')" and "\<forall>i\<in>set env. others i = []" and "valid s"
  shows "e = BadAlloc \<and> objectPtr s' = objectPtr s \<and> valid s' \<and> fst (load s') = fst (load s)"
proof -
  from assms(1) have "update_loop env f c (atomic_load s) s = (Inl e, c', s')"
    by (simp add: update_def)
  from update_loop_Inl[OF this assms(2)]
  obtain ys where "e = BadAlloc" "objectPtr s' = objectPtr s" "cells (mem s') = cells (mem s) @ ys"
    by blast
  with valid_same[OF _ _ assms(3)] show ?thesis by blast
qed

text \<open>
  Claim C7. When the allocator refuses, \<^verbatim>\<open>store\<close> and \<^verbatim>\<open>update\<close> end with
  \<^verbatim>\<open>std::bad_alloc\<close>. A \<^verbatim>\<open>store\<close>, and an \<^verbatim>\<open>update\<close> that meets no interference, that
  ends so leaves \<open>objectPtr\<close> and every cell as they were, and \<^verbatim>\<open>load()\<close> returns what
  it returned before. The same holds of an \<^verbatim>\<open>update\<close> on a valid world whose earlier
  attempts failed spuriously, no other thread writing: \<open>objectPtr\<close> is as it was, the
  world is valid and \<^verbatim>\<open>load()\<close> returns what it returned before.
\<close>
theorem failed_allocation_publishes_nothing:
  "(\<not> grants (mem s) \<longrightarrow>
       fst (store v s) = Inl BadAlloc \<and> fst (update [] f c s) = Inl BadAlloc
     \<and> fst (update_void [] g c s) = Inl BadAlloc)
   \<and> (\<forall>e s'. store v s = (Inl e, s') \<longrightarrow>
         e = BadAlloc \<and> objectPtr s' = objectPtr s \<and> cells (mem s') = cells (mem s)
       \<and> fst (load s') = fst (load s))
   \<and> (\<forall>e c' s'. update [] f c s = (Inl e, c', s') \<longrightarrow>
         e = BadAlloc \<and> objectPtr s' = objectPtr s \<and> cells (mem s') = cells (mem s)
       \<and> fst (load s') = fst (load s))
   \<and> (\<forall>e c' s'. update_void [] g c s = (Inl e, c', s') \<longrightarrow>
         e = BadAlloc \<and> objectPtr s' = objectPtr s \<and> cells (mem s') = cells (mem s)
       \<and> fst (load s') = fst (load s))
   \<and> (\<forall>e c' s'. (\<forall>i\<in>set env. others i = []) \<and> valid s \<and> update env f c s = (Inl e, c', s') \<longrightarrow>
         e = BadAlloc \<and> objectPtr s' = objectPtr s \<and> valid s' \<and> fst (load s') = fst (load s))
   \<and> (\<forall>e c' s'. (\<forall>i\<in>set env. others i = []) \<and> valid s \<and> update_void env g c s = (Inl e, c', s') \<longrightarrow>
         e = BadAlloc \<and> objectPtr s' = objectPtr s \<and> valid s' \<and> fst (load s') = fst (load s))"
proof -
  have 1: "\<not> grants (mem s) \<longrightarrow>
       fst (store v s) = Inl BadAlloc \<and> fst (update [] f c s) = Inl BadAlloc
     \<and> fst (update_void [] g c s) = Inl BadAlloc"
  proof
    assume n: "\<not> grants (mem s)"
    then have "fst (store v s) = Inl BadAlloc"
      by (auto simp: store_def make_shared_def grants_def split: list.splits)
    moreover from n have "fst (update [] f c s) = Inl BadAlloc"
      by (rule update_quiet_refuses)
    moreover from n have "fst (update_void [] g c s) = Inl BadAlloc"
      unfolding update_void_def by (rule update_quiet_refuses)
    ultimately show "fst (store v s) = Inl BadAlloc \<and> fst (update [] f c s) = Inl BadAlloc
     \<and> fst (update_void [] g c s) = Inl BadAlloc"
      by simp
  qed
  have 2: "e = BadAlloc \<and> objectPtr s' = objectPtr s \<and> cells (mem s') = cells (mem s)
       \<and> fst (load s') = fst (load s)" if "store v s = (Inl e, s')" for e s'
    using store_Inl[OF that] by (simp add: load_copy_of copy_of_def split: option.splits)
  have 3: "e = BadAlloc \<and> objectPtr s' = objectPtr s \<and> cells (mem s') = cells (mem s)
       \<and> fst (load s') = fst (load s)" if "update [] f c s = (Inl e, c', s')" for e c' s'
    using that by (rule update_quiet_Inl)
  have 4: "e = BadAlloc \<and> objectPtr s' = objectPtr s \<and> cells (mem s') = cells (mem s)
       \<and> fst (load s') = fst (load s)" if "update_void [] g c s = (Inl e, c', s')" for e c' s'
    using that unfolding update_void_def by (rule update_quiet_Inl)
  have 5: "e = BadAlloc \<and> objectPtr s' = objectPtr s \<and> valid s' \<and> fst (load s') = fst (load s)"
    if "(\<forall>i\<in>set env. others i = []) \<and> valid s \<and> update env f c s = (Inl e, c', s')" for e c' s'
  proof -
    from that have a: "\<forall>i\<in>set env. others i = []" and v: "valid s"
      and u: "update env f c s = (Inl e, c', s')"
      by simp_all
    from update_unrivalled_Inl[OF u a v] show ?thesis .
  qed
  have 6: "e = BadAlloc \<and> objectPtr s' = objectPtr s \<and> valid s' \<and> fst (load s') = fst (load s)"
    if "(\<forall>i\<in>set env. others i = []) \<and> valid s \<and> update_void env g c s = (Inl e, c', s')"
    for e c' s'
  proof -
    from that have a: "\<forall>i\<in>set env. others i = []" and v: "valid s"
      and u: "update env (\<lambda>x c. case g x c of (x', c') \<Rightarrow> (((), x'), c')) c s = (Inl e, c', s')"
      by (simp_all add: update_void_def)
    from update_unrivalled_Inl[OF u a v] show ?thesis .
  qed
  from 2 have c2: "\<forall>e s'. store v s = (Inl e, s') \<longrightarrow>
         e = BadAlloc \<and> objectPtr s' = objectPtr s \<and> cells (mem s') = cells (mem s)
       \<and> fst (load s') = fst (load s)"
    by (intro allI impI)
  from 3 have c3: "\<forall>e c' s'. update [] f c s = (Inl e, c', s') \<longrightarrow>
         e = BadAlloc \<and> objectPtr s' = objectPtr s \<and> cells (mem s') = cells (mem s)
       \<and> fst (load s') = fst (load s)"
    by (intro allI impI)
  from 4 have c4: "\<forall>e c' s'. update_void [] g c s = (Inl e, c', s') \<longrightarrow>
         e = BadAlloc \<and> objectPtr s' = objectPtr s \<and> cells (mem s') = cells (mem s)
       \<and> fst (load s') = fst (load s)"
    by (intro allI impI)
  from 5 have c5: "\<forall>e c' s'. (\<forall>i\<in>set env. others i = []) \<and> valid s \<and> update env f c s = (Inl e, c', s') \<longrightarrow>
         e = BadAlloc \<and> objectPtr s' = objectPtr s \<and> valid s' \<and> fst (load s') = fst (load s)"
    by (intro allI impI)
  from 6 have c6: "\<forall>e c' s'. (\<forall>i\<in>set env. others i = []) \<and> valid s \<and> update_void env g c s = (Inl e, c', s') \<longrightarrow>
         e = BadAlloc \<and> objectPtr s' = objectPtr s \<and> valid s' \<and> fst (load s') = fst (load s)"
    by (intro allI impI)
  show ?thesis by (intro conjI 1 c2 c3 c4 c5 c6)
qed


theorem failed_allocation_publishes_nothing_witness:
  "\<not> grants (mem w1_full)
   \<and> store (Counter 9 9) w1_full = (Inl BadAlloc, w1)
   \<and> update [] tick 0 w1_full = (Inl BadAlloc, 1, w1)
   \<and> update_void [] tick_void 0 w1_full = (Inl BadAlloc, 1, w1)
   \<and> fst (load w1) = fst (load w1_full)
   \<and> others (Interference [] True :: counter interference) = []
   \<and> valid w1_tight
   \<and> update [Interference [] True] tick 0 w1_tight
      = (Inl BadAlloc, 2, \<lparr>mem = \<lparr>cells = [Counter 7 1, Counter 8 1], alloc_fail = []\<rparr>,
                            objectPtr = Some 0\<rparr>)
   \<and> fst (load \<lparr>mem = \<lparr>cells = [Counter 7 1, Counter 8 1], alloc_fail = []\<rparr>, objectPtr = Some 0\<rparr>)
      = fst (load w1_tight)"
proof -
  have g: "\<not> grants (mem w1_full)" by (simp add: grants_def w1_full_def)
  have a: "store (Counter 9 9) w1_full = (Inl BadAlloc, w1)"
    by (simp add: store_def make_shared_def w1_full_def w1_def)
  have b: "update [] tick 0 w1_full = (Inl BadAlloc, 1, w1)" by code_simp
  have c: "update_void [] tick_void 0 w1_full = (Inl BadAlloc, 1, w1)" by code_simp
  have d: "update [Interference [] True] tick 0 w1_tight
      = (Inl BadAlloc, 2, \<lparr>mem = \<lparr>cells = [Counter 7 1, Counter 8 1], alloc_fail = []\<rparr>,
                            objectPtr = Some 0\<rparr>)" by code_simp
  have v: "valid w1_tight" by (simp add: valid_def w1_tight_def)
  have o: "others (Interference [] True :: counter interference) = []" by simp
  have l: "fst (load w1) = fst (load w1_full)"
    using failed_allocation_publishes_nothing[of w1_full "Counter 9 9" tick 0 tick_void "[]",
        THEN conjunct2, THEN conjunct1, rule_format, OF a,
        THEN conjunct2, THEN conjunct2, THEN conjunct2] .
  have e: "(\<forall>i\<in>set [Interference [] True :: counter interference]. others i = []) \<and> valid w1_tight
      \<and> update [Interference [] True] tick 0 w1_tight
      = (Inl BadAlloc, 2, \<lparr>mem = \<lparr>cells = [Counter 7 1, Counter 8 1], alloc_fail = []\<rparr>,
                            objectPtr = Some 0\<rparr>)"
    using v d by simp
  have l2: "fst (load \<lparr>mem = \<lparr>cells = [Counter 7 1, Counter 8 1], alloc_fail = []\<rparr>, objectPtr = Some 0\<rparr>)
      = fst (load w1_tight)"
    using failed_allocation_publishes_nothing[of w1_tight "Counter 9 9" tick 0 tick_void
        "[Interference [] True]", THEN conjunct2, THEN conjunct2, THEN conjunct2, THEN conjunct2,
        THEN conjunct1, rule_format, OF e, THEN conjunct2, THEN conjunct2, THEN conjunct2] .
  show ?thesis by (intro conjI g a b c l o v d l2)
qed

section \<open>Further facts about the loop\<close>

text \<open>A thread that runs alone does what \<^verbatim>\<open>update\<close> does when it meets no interference.\<close>

lemma thread_alone:
  "run f (replicate 3 (0, False)) (start 1 s) =
     (case update_void [] (\<lambda>x c. (f x, c)) () s of
        (Inr u, c, s') \<Rightarrow> \<lparr>shared = s', threads = [Finished]\<rparr>
      | (Inl e, c, s') \<Rightarrow> \<lparr>shared = s', threads = [Raised e]\<rparr>)"
  by (simp add: run_def start_def numeral_3_eq_3 system_step_def update_void_def update_quiet
      load_copy_of atomic_load_def atomic_compare_exchange_weak_def
      split: prod.splits sum.splits)

text \<open>
  The C++ standard lets the weak compare-and-swap fail although the slot holds the
  expected pointer; a library that runs the weak form as the strong one never does.
  Were it to fail so \<open>n\<close> times, no other thread writing, the call would still return,
  having called \<open>updateFunction\<close> \<open>n + 1\<close> times, each time on a copy of the value the
  slot held at the call; what it returns and installs comes from the last of these
  calls.
\<close>

lemma update_one_spurious_failure:
  "update [Interference [] True] tick 0 w1
      = (Inr 1, 2, \<lparr>mem = \<lparr>cells = [Counter 7 1, Counter 8 1, Counter 8 1], alloc_fail = []\<rparr>,
                     objectPtr = Some 2\<rparr>)"
  by code_simp

lemma update_loop_spurious:
  assumes "valid s" and "alloc_fail (mem s) = []"
  shows "\<exists>s'. update_loop (replicate n (Interference [] True)) f c (objectPtr s) s
            = (Inr (fst (fst (f (fst (load s)) (((\<lambda>c. snd (f (fst (load s)) c)) ^^ n) c)))),
               snd (f (fst (load s)) (((\<lambda>c. snd (f (fst (load s)) c)) ^^ n) c)), s')
          \<and> fst (load s') = snd (fst (f (fst (load s)) (((\<lambda>c. snd (f (fst (load s)) c)) ^^ n) c)))"
  using assms
proof (induction n arbitrary: c s)
  case 0
  obtain r v c1 where f: "f (fst (load s)) c = ((r, v), c1)" by (metis surj_pair)
  with 0 show ?case
    by (subst update_loop.simps)
       (simp add: attempt_def quiet_def make_shared_def atomic_compare_exchange_weak_def
          load_copy_of[symmetric] load_Holding)
next
  case (Suc n)
  let ?v = "fst (load s)"
  obtain r v c1 where f: "f ?v c = ((r, v), c1)" by (metis surj_pair)
  define s1 where "s1 = s\<lparr>mem := (mem s)\<lparr>cells := cells (mem s) @ [v]\<rparr>\<rparr>"
  have att: "attempt (Interference [] True) f c (objectPtr s) s = Retry (objectPtr s) c1 s1"
    using f Suc.prems(2)
    by (simp add: attempt_def make_shared_def atomic_compare_exchange_weak_def
        load_copy_of[symmetric] s1_def)
  have 1: "objectPtr s1 = objectPtr s" "cells (mem s1) = cells (mem s) @ [v]"
    "alloc_fail (mem s1) = []"
    using Suc.prems(2) by (simp_all add: s1_def)
  from valid_same[OF 1(1,2) Suc.prems(1)] have 2: "valid s1" "fst (load s1) = ?v" by simp_all
  from Suc.IH[OF 2(1) 1(3), of c1] 2(2) 1(1) f
  obtain s' where "update_loop (replicate n (Interference [] True)) f c1 (objectPtr s) s1
            = (Inr (fst (fst (f ?v (((\<lambda>c. snd (f ?v c)) ^^ n) c1)))),
               snd (f ?v (((\<lambda>c. snd (f ?v c)) ^^ n) c1)), s')"
     and "fst (load s') = snd (fst (f ?v (((\<lambda>c. snd (f ?v c)) ^^ n) c1)))"
    by auto
  moreover have "((\<lambda>c. snd (f ?v c)) ^^ n) c1 = ((\<lambda>c. snd (f ?v c)) ^^ Suc n) c"
  proof -
    have "((\<lambda>c. snd (f ?v c)) ^^ Suc n) c = ((\<lambda>c. snd (f ?v c)) ^^ n) (snd (f ?v c))"
      by (simp only: funpow_Suc_right o_apply)
    with f show ?thesis by simp
  qed
  ultimately show ?case
    using att by (subst update_loop.simps) simp
qed

lemma update_spurious:
  assumes "valid s" and "alloc_fail (mem s) = []"
  shows "\<exists>s'. update (replicate n (Interference [] True)) f c s
            = (Inr (fst (fst (f (fst (load s)) (((\<lambda>c. snd (f (fst (load s)) c)) ^^ n) c)))),
               snd (f (fst (load s)) (((\<lambda>c. snd (f (fst (load s)) c)) ^^ n) c)), s')
          \<and> fst (load s') = snd (fst (f (fst (load s)) (((\<lambda>c. snd (f (fst (load s)) c)) ^^ n) c)))"
  unfolding update_def Let_def atomic_load_def
  using assms by (rule update_loop_spurious)

end
